theory Spec2Isabelle
  imports Main "HOL-Library.Sublist"
begin

section \<open>Bytes and text\<close>

text \<open>
  CatSocks.py moves two kinds of data: \<^verbatim>\<open>bytes\<close> (what the serial port and the client
  socket carry) and \<^verbatim>\<open>str\<close> (decoded text that is searched for tokens).
  A byte is a \<^typ>\<open>char\<close> (eight bits), a \<^verbatim>\<open>bytes\<close> value a \<^typ>\<open>char list\<close>, and a
  \<^verbatim>\<open>str\<close> the list of its Unicode code points.
\<close>

type_synonym bytes = "char list"
type_synonym str = "nat list"

definition str_of :: "string \<Rightarrow> str" where
  "str_of s = map of_char s"

definition CR :: char where "CR = CHR 0x0D"
definition LF :: char where "LF = CHR 0x0A"
definition CTRL_Z :: char where "CTRL_Z = CHR 0x1A"

text \<open>Exceptions the modelled code can raise.\<close>

datatype error =
    TimeoutError string
  | StructError
  | IndexError
  | ValueError
  | OSError
  | UnicodeDecodeError
  | UnicodeEncodeError

subsection \<open>UTF-8, as \<^verbatim>\<open>bytes.decode\<close> and \<^verbatim>\<open>str.encode\<close> apply it\<close>

definition is_cont :: "nat \<Rightarrow> bool" where
  "is_cont b = (128 \<le> b \<and> b < 192)"

text \<open>
  One step of the decoder on a non-empty input: \<open>(Some cp, n)\<close> when the first \<open>n\<close>
  bytes encode the code point \<open>cp\<close>, \<open>(None, n)\<close> when the first \<open>n\<close> bytes are the range
  the codec hands to its error handler (invalid start byte, invalid continuation byte,
  unexpected end of data).
\<close>

fun utf8_next :: "nat list \<Rightarrow> nat option \<times> nat" where
  "utf8_next [] = (None, 0)"
| "utf8_next (b0 # rest) =
     (if b0 < 128 then (Some b0, 1)
      else if b0 < 194 then (None, 1)
      else if b0 < 224 then
        (case rest of
           [] \<Rightarrow> (None, 1)
         | b1 # _ \<Rightarrow>
             if is_cont b1 then (Some ((b0 - 192) * 64 + (b1 - 128)), 2) else (None, 1))
      else if b0 < 240 then
        (case rest of
           [] \<Rightarrow> (None, 1)
         | b1 # r2 \<Rightarrow>
             if \<not> is_cont b1 \<or> (b0 = 224 \<and> b1 < 160) \<or> (b0 = 237 \<and> 160 \<le> b1)
             then (None, 1)
             else (case r2 of
                     [] \<Rightarrow> (None, 2)
                   | b2 # _ \<Rightarrow>
                       if is_cont b2
                       then (Some ((b0 - 224) * 4096 + (b1 - 128) * 64 + (b2 - 128)), 3)
                       else (None, 2)))
      else if b0 < 245 then
        (case rest of
           [] \<Rightarrow> (None, 1)
         | b1 # r2 \<Rightarrow>
             if \<not> is_cont b1 \<or> (b0 = 240 \<and> b1 < 144) \<or> (b0 = 244 \<and> 144 \<le> b1)
             then (None, 1)
             else (case r2 of
                     [] \<Rightarrow> (None, 2)
                   | b2 # r3 \<Rightarrow>
                       if \<not> is_cont b2 then (None, 2)
                       else (case r3 of
                               [] \<Rightarrow> (None, 3)
                             | b3 # _ \<Rightarrow>
                                 if is_cont b3
                                 then (Some ((b0 - 240) * 262144 + (b1 - 128) * 4096
                                              + (b2 - 128) * 64 + (b3 - 128)), 4)
                                 else (None, 3))))
      else (None, 1))"

lemma utf8_next_pos: "bs \<noteq> [] \<Longrightarrow> 0 < snd (utf8_next bs)"
  by (cases bs) (auto split: list.splits)

text \<open>\<^verbatim>\<open>decode(errors='ignore')\<close>: undecodable ranges are skipped.\<close>

function utf8_ignore :: "nat list \<Rightarrow> str" where
  "utf8_ignore bs =
     (if bs = [] then []
      else (case fst (utf8_next bs) of
              Some cp \<Rightarrow> cp # utf8_ignore (drop (snd (utf8_next bs)) bs)
            | None \<Rightarrow> utf8_ignore (drop (snd (utf8_next bs)) bs)))"
  by pat_completeness auto
termination
  by (relation "measure length") (auto simp: utf8_next_pos)

definition decode_ignore :: "bytes \<Rightarrow> str" where
  "decode_ignore bs = utf8_ignore (map of_char bs)"

text \<open>\<^verbatim>\<open>decode()\<close>: the first undecodable range raises UnicodeDecodeError.\<close>

function utf8_strict :: "nat list \<Rightarrow> str option" where
  "utf8_strict bs =
     (if bs = [] then Some []
      else (case fst (utf8_next bs) of
              Some cp \<Rightarrow> map_option ((#) cp) (utf8_strict (drop (snd (utf8_next bs)) bs))
            | None \<Rightarrow> None))"
  by pat_completeness auto
termination
  by (relation "measure length") (auto simp: utf8_next_pos)

definition decode_strict :: "bytes \<Rightarrow> error + str" where
  "decode_strict bs =
     (case utf8_strict (map of_char bs) of None \<Rightarrow> Inl UnicodeDecodeError | Some s \<Rightarrow> Inr s)"

text \<open>\<^verbatim>\<open>str.encode()\<close>: a surrogate code point raises UnicodeEncodeError.\<close>

definition utf8_char :: "nat \<Rightarrow> nat list option" where
  "utf8_char cp =
     (if cp < 128 then Some [cp]
      else if cp < 2048 then Some [192 + cp div 64, 128 + cp mod 64]
      else if cp < 65536 then
        (if 55296 \<le> cp \<and> cp < 57344 then None
         else Some [224 + cp div 4096, 128 + (cp div 64) mod 64, 128 + cp mod 64])
      else if cp < 1114112 then
        Some [240 + cp div 262144, 128 + (cp div 4096) mod 64,
              128 + (cp div 64) mod 64, 128 + cp mod 64]
      else None)"

fun encode :: "str \<Rightarrow> error + bytes" where
  "encode [] = Inr []"
| "encode (cp # s) =
     (case utf8_char cp of
        None \<Rightarrow> Inl UnicodeEncodeError
      | Some bs \<Rightarrow>
          (case encode s of Inl e \<Rightarrow> Inl e | Inr r \<Rightarrow> Inr (map char_of bs @ r)))"

subsection \<open>The \<^verbatim>\<open>str\<close> methods the code calls\<close>

text \<open>\<^verbatim>\<open>sub in s\<close>\<close>

fun contains :: "'a list \<Rightarrow> 'a list \<Rightarrow> bool" where
  "contains sub [] = (sub = [])"
| "contains sub (c # s) = (prefix sub (c # s) \<or> contains sub s)"

text \<open>\<^verbatim>\<open>str.isspace\<close> of one code point, which \<^verbatim>\<open>strip()\<close> removes at both ends.\<close>

definition is_space :: "nat \<Rightarrow> bool" where
  "is_space c =
     ((9 \<le> c \<and> c \<le> 13) \<or> (28 \<le> c \<and> c \<le> 32) \<or> c = 133 \<or> c = 160 \<or> c = 5760
      \<or> (8192 \<le> c \<and> c \<le> 8202) \<or> c = 8232 \<or> c = 8233 \<or> c = 8239 \<or> c = 8287
      \<or> c = 12288)"

definition strip :: "str \<Rightarrow> str" where
  "strip s = rev (dropWhile is_space (rev (dropWhile is_space s)))"

text \<open>\<^verbatim>\<open>str.splitlines()\<close>: the line boundaries of \<^verbatim>\<open>str\<close>; CR LF counts once.\<close>

definition is_linebreak :: "nat \<Rightarrow> bool" where
  "is_linebreak c =
     ((10 \<le> c \<and> c \<le> 13) \<or> (28 \<le> c \<and> c \<le> 30) \<or> c = 133 \<or> c = 8232 \<or> c = 8233)"

fun splitlines_from :: "str \<Rightarrow> str \<Rightarrow> str list" where
  "splitlines_from cur [] = (if cur = [] then [] else [cur])"
| "splitlines_from cur (c # s) =
     (if c = 13 \<and> s \<noteq> [] \<and> hd s = 10 then cur # splitlines_from [] (tl s)
      else if is_linebreak c then cur # splitlines_from [] s
      else splitlines_from (cur @ [c]) s)"

definition splitlines :: "str \<Rightarrow> str list" where
  "splitlines s = splitlines_from [] s"

text \<open>\<^verbatim>\<open>str.split(sep)\<close> for a one-character separator: never an empty list.\<close>

fun split_from :: "nat \<Rightarrow> str \<Rightarrow> str \<Rightarrow> str list" where
  "split_from sep cur [] = [cur]"
| "split_from sep cur (c # s) =
     (if c = sep then cur # split_from sep [] s else split_from sep (cur @ [c]) s)"

definition split :: "nat \<Rightarrow> str \<Rightarrow> str list" where
  "split sep s = split_from sep [] s"

text \<open>\<^verbatim>\<open>str(n)\<close> and the \<^verbatim>\<open>{n}\<close> of an f-string, for an integer.\<close>

function show_nat :: "nat \<Rightarrow> str" where
  "show_nat n = (if n < 10 then [48 + n] else show_nat (n div 10) @ [48 + n mod 10])"
  by pat_completeness auto
termination
  by (relation "measure id") auto

definition show_int :: "int \<Rightarrow> str" where
  "show_int i = (if i < 0 then 45 # show_nat (nat (- i)) else show_nat (nat i))"

text \<open>
  \<^verbatim>\<open>int(s)\<close> in base 10, as CPython 3.11 reads a \<^verbatim>\<open>str\<close>: blanks around, one optional
  sign, then digits, where single underscores may stand between digits. \<open>None\<close> is
  ValueError.

  A digit is any Unicode decimal digit. Those come in runs of ten consecutive code
  points with the values 0 to 9; \<open>digit_zeros\<close> lists the first code point of every run
  (Unicode 14.0, the database of CPython 3.11; the first run is the ASCII digits). A
  blank is a code point that \<^verbatim>\<open>int\<close> skips: the ASCII blanks and the non-ASCII spaces. A
  literal of more than \<open>MAX_STR_DIGITS\<close> digits is refused.
\<close>

definition digit_zeros :: "nat list" where
  "digit_zeros =
     [48, 1632, 1776, 1984, 2406, 2534, 2662, 2790,
      2918, 3046, 3174, 3302, 3430, 3558, 3664, 3792,
      3872, 4160, 4240, 6112, 6160, 6470, 6608, 6784,
      6800, 6992, 7088, 7232, 7248, 42528, 43216, 43264,
      43472, 43504, 43600, 44016, 65296, 66720, 68912, 69734,
      69872, 69942, 70096, 70384, 70736, 70864, 71248, 71360,
      71472, 71904, 72016, 72784, 73040, 73120, 92768, 92864,
      93008, 120782, 120792, 120802, 120812, 120822, 123200, 123632,
      125264, 130032]"

definition digit_value :: "nat \<Rightarrow> nat option" where
  "digit_value c = map_option (\<lambda>z. c - z) (find (\<lambda>z. z \<le> c \<and> c \<le> z + 9) digit_zeros)"

definition MAX_STR_DIGITS :: nat where "MAX_STR_DIGITS = 4300"

definition is_int_blank :: "nat \<Rightarrow> bool" where
  "is_int_blank c = ((9 \<le> c \<and> c \<le> 13) \<or> c = 32 \<or> (127 \<le> c \<and> is_space c))"

definition is_digit :: "nat \<Rightarrow> bool" where
  "is_digit c = (digit_value c \<noteq> None)"

fun digits_value :: "nat \<Rightarrow> str \<Rightarrow> nat option" where
  "digits_value acc [] = Some acc"
| "digits_value acc (c # s) =
     (case digit_value c of
        Some d \<Rightarrow> digits_value (acc * 10 + d) s
      | None \<Rightarrow>
          if c = 95 \<and> s \<noteq> [] \<and> is_digit (hd s) then digits_value acc s else None)"

definition py_int :: "str \<Rightarrow> int option" where
  "py_int s =
     (let t = rev (dropWhile is_int_blank (rev (dropWhile is_int_blank s)));
          neg = (t \<noteq> [] \<and> hd t = 45);
          body = (if t \<noteq> [] \<and> (hd t = 45 \<or> hd t = 43) then tl t else t)
      in if body = [] \<or> \<not> is_digit (hd body) then None
         else if MAX_STR_DIGITS < length (filter is_digit body) then None
         else (case digits_value 0 body of
                 None \<Rightarrow> None
               | Some n \<Rightarrow> Some (if neg then - int n else int n)))"

section \<open>The serial port, the clock and the client socket\<close>

text \<open>
  The program talks to its environment through \<^verbatim>\<open>self.ser\<close> (pyserial, opened with
  \<^verbatim>\<open>timeout=None\<close>: a read blocks until it has all the bytes it asked for),
  \<^verbatim>\<open>time.time()\<close>, \<^verbatim>\<open>time.sleep\<close> and one client socket. The environment is a
  schedule: every byte the modem will send, with its arrival time, and every segment
  the client will send, with its arrival time. Times are in milliseconds. Computation
  takes no time; the clock moves while a read blocks and during \<^verbatim>\<open>sleep\<close>. A read that
  waits for bytes the schedule never delivers blocks forever: the operation returns
  \<open>None\<close>. What a machine can hold (memory, the largest size a read accepts) is not
  part of the model.
\<close>

record world =
  now :: nat
  rx :: "(nat \<times> char) list"
  tx :: bytes
  cid :: int
  sock_id :: int
  cin :: "(nat \<times> bytes) list"
  cout :: bytes
  cclosed :: bool

text \<open>Module configuration.\<close>

definition MAX_CHUNK_SIZE :: nat where "MAX_CHUNK_SIZE = 1024"
definition PROMPT_TIMEOUT :: nat where "PROMPT_TIMEOUT = 5000"
definition ACK_TIMEOUT :: nat where "ACK_TIMEOUT = 5000"

definition arrived :: "nat \<Rightarrow> nat \<times> 'a \<Rightarrow> bool" where
  "arrived t p = (fst p \<le> t)"

text \<open>\<^verbatim>\<open>ser.in_waiting\<close>: the bytes received and not yet read.\<close>

definition in_waiting :: "world \<Rightarrow> nat" where
  "in_waiting w = length (takeWhile (arrived (now w)) (rx w))"

text \<open>\<^verbatim>\<open>ser.read(n)\<close> with \<^verbatim>\<open>timeout=None\<close>: returns exactly \<open>n\<close> bytes, once the
  last of them has arrived.\<close>

definition ser_read :: "nat \<Rightarrow> world \<Rightarrow> (bytes \<times> world) option" where
  "ser_read n w =
     (if length (rx w) < n then None
      else Some (map snd (take n (rx w)),
                 w\<lparr>now := fold max (map fst (take n (rx w))) (now w), rx := drop n (rx w)\<rparr>))"

text \<open>\<^verbatim>\<open>ser.readline()\<close>: reads up to and including the next LF.\<close>

definition ser_readline :: "world \<Rightarrow> (bytes \<times> world) option" where
  "ser_readline w =
     (if LF \<in> set (map snd (rx w))
      then ser_read (Suc (length (takeWhile (\<lambda>p. snd p \<noteq> LF) (rx w)))) w
      else None)"

definition ser_write :: "bytes \<Rightarrow> world \<Rightarrow> world" where
  "ser_write data w = w\<lparr>tx := tx w @ data\<rparr>"

text \<open>\<^verbatim>\<open>ser.reset_input_buffer()\<close>: drops what has been received and not read.\<close>

definition reset_input_buffer :: "world \<Rightarrow> world" where
  "reset_input_buffer w = w\<lparr>rx := dropWhile (arrived (now w)) (rx w)\<rparr>"

definition sleep :: "nat \<Rightarrow> world \<Rightarrow> world" where
  "sleep ms w = w\<lparr>now := now w + ms\<rparr>"

lemma fold_max_ge: "(a::nat) \<le> fold max ts a"
proof (induction ts arbitrary: a)
  case Nil
  show ?case by simp
next
  case (Cons t ts)
  have "a \<le> max t a" by simp
  also have "\<dots> \<le> fold max ts (max t a)" by (rule Cons.IH)
  finally show ?case by simp
qed

lemma ser_read_shrinks:
  "ser_read n w = Some (bs, w') \<Longrightarrow> 0 < n \<Longrightarrow> length (rx w') < length (rx w)"
  by (auto simp: ser_read_def split: if_splits)

lemma ser_read_now: "ser_read n w = Some (bs, w') \<Longrightarrow> now w \<le> now w'"
  by (auto simp: ser_read_def fold_max_ge split: if_splits)

lemma ser_readline_shrinks:
  "ser_readline w = Some (bs, w') \<Longrightarrow> length (rx w') < length (rx w)"
  by (auto simp: ser_readline_def dest: ser_read_shrinks split: if_splits)

section \<open>class QuectelModem\<close>

text \<open>\<^verbatim>\<open>_wait_for_rdy\<close>: \<^verbatim>\<open>while True\<close> around a blocking \<^verbatim>\<open>readline\<close>.\<close>

function wait_for_rdy :: "world \<Rightarrow> world option" where
  "wait_for_rdy w =
     (case ser_readline w of
        None \<Rightarrow> None
      | Some (line, w') \<Rightarrow>
          if strip (decode_ignore line) = str_of ''RDY'' then Some w' else wait_for_rdy w')"
  by pat_completeness auto
termination
  by (relation "measure (\<lambda>w. length (rx w))") (auto dest: ser_readline_shrinks)

text \<open>The \<^verbatim>\<open>while time.time() < deadline\<close> loop of \<^verbatim>\<open>_send_at\<close>.\<close>

function send_at_loop :: "nat \<Rightarrow> str \<Rightarrow> world \<Rightarrow> (str \<times> world) option" where
  "send_at_loop deadline resp w =
     (if now w < deadline then
        (case ser_read (if in_waiting w = 0 then 1 else in_waiting w) w of
           None \<Rightarrow> None
         | Some (bs, w') \<Rightarrow>
             if decode_ignore bs \<noteq> [] then
               (if contains (str_of ''OK'') (resp @ decode_ignore bs)
                   \<or> contains (str_of ''ERROR'') (resp @ decode_ignore bs)
                then Some (resp @ decode_ignore bs, w')
                else send_at_loop deadline (resp @ decode_ignore bs) w')
             else send_at_loop deadline resp w')
      else Some (resp, w))"
  by pat_completeness auto
termination
  by (relation "measure (\<lambda>(d, r, w). length (rx w))")
     (auto dest!: ser_read_shrinks split: if_splits)

text \<open>
  \<^verbatim>\<open>_send_at(cmd, timeout)\<close>: reset the input buffer, write the command and CR, collect
  the response until it holds OK or ERROR or the deadline has passed, and return the
  text.
\<close>

definition send_at :: "str \<Rightarrow> nat \<Rightarrow> world \<Rightarrow> ((error + str) \<times> world) option" where
  "send_at cmd timeout w =
     (let w1 = reset_input_buffer w in
      case encode (cmd @ [of_char CR]) of
        Inl e \<Rightarrow> Some (Inl e, w1)
      | Inr bs \<Rightarrow>
          (let w2 = ser_write bs w1 in
           case send_at_loop (now w2 + timeout) [] w2 of
             None \<Rightarrow> None
           | Some (resp, w3) \<Rightarrow> Some (Inr resp, w3)))"

text \<open>\<^verbatim>\<open>__init__\<close>: wait for the module to boot, then disable echo.\<close>

definition modem_init :: "world \<Rightarrow> ((error + str) \<times> world) option" where
  "modem_init w =
     (case wait_for_rdy (w\<lparr>cid := 1, sock_id := 0\<rparr>) of
        None \<Rightarrow> None
      | Some w1 \<Rightarrow> send_at (str_of ''ATE0'') 2000 w1)"

text \<open>The \<^verbatim>\<open>for line in buffer.splitlines()\<close> of \<^verbatim>\<open>open_tcp_direct_push\<close>: the first
  line that decides.\<close>

fun scan_lines :: "str \<Rightarrow> str list \<Rightarrow> bool option" where
  "scan_lines sid [] = None"
| "scan_lines sid (line # ls) =
     (if contains (str_of ''+QIOPEN: '' @ sid @ str_of '',0'') line \<or> line = str_of ''CONNECT''
      then Some True
      else if contains (str_of ''+QIOPEN: '' @ sid @ str_of '','') line then Some False
      else scan_lines sid ls)"

function open_loop :: "nat \<Rightarrow> str \<Rightarrow> world \<Rightarrow> (bool \<times> world) option" where
  "open_loop deadline buffer w =
     (if now w < deadline then
        (if in_waiting w \<noteq> 0 then
           (case ser_read (in_waiting w) w of
              None \<Rightarrow> None
            | Some (bs, w') \<Rightarrow>
                (case scan_lines (show_int (sock_id w')) (splitlines (buffer @ decode_ignore bs)) of
                   Some b \<Rightarrow> Some (b, w')
                 | None \<Rightarrow> open_loop deadline (buffer @ decode_ignore bs) (sleep 100 w')))
         else open_loop deadline buffer (sleep 100 w))
      else Some (False, w))"
  by pat_completeness auto
termination
  by (relation "measure (\<lambda>(d, b, w). d - now w)")
     (auto simp: sleep_def dest!: ser_read_now)

definition dq :: nat where "dq = 34"

definition qiopen_cmd :: "world \<Rightarrow> str \<Rightarrow> int \<Rightarrow> str" where
  "qiopen_cmd w host port =
     str_of ''AT+QIOPEN='' @ show_int (cid w) @ str_of '','' @ show_int (sock_id w)
     @ str_of '','' @ [dq] @ str_of ''TCP'' @ [dq] @ str_of '','' @ [dq] @ host @ [dq]
     @ str_of '','' @ show_int port @ str_of '',0,1''"

definition open_tcp_direct_push ::
  "str \<Rightarrow> int \<Rightarrow> world \<Rightarrow> ((error + bool) \<times> world) option" where
  "open_tcp_direct_push host port w =
     (case send_at (qiopen_cmd w host port) 2000 w of
        None \<Rightarrow> None
      | Some (Inl e, w1) \<Rightarrow> Some (Inl e, w1)
      | Some (Inr resp, w1) \<Rightarrow>
          (case open_loop (now w1 + 10000) [] w1 of
             None \<Rightarrow> None
           | Some (b, w2) \<Rightarrow> Some (Inr b, w2)))"

text \<open>\<^verbatim>\<open>_wait_for_prompt\<close>: read one byte at a time until it is the prompt.\<close>

function wait_for_prompt_loop :: "nat \<Rightarrow> world \<Rightarrow> (bool \<times> world) option" where
  "wait_for_prompt_loop deadline w =
     (if now w < deadline then
        (case ser_read 1 w of
           None \<Rightarrow> None
         | Some (bs, w') \<Rightarrow>
             if bs = ''>'' then Some (True, w') else wait_for_prompt_loop deadline w')
      else Some (False, w))"
  by pat_completeness auto
termination
  by (relation "measure (\<lambda>(d, w). length (rx w))") (auto dest!: ser_read_shrinks)

definition wait_for_prompt :: "world \<Rightarrow> (bool \<times> world) option" where
  "wait_for_prompt w = wait_for_prompt_loop (now w + PROMPT_TIMEOUT) w"

text \<open>Step 4 of \<^verbatim>\<open>send_raw\<close>: consume one response line.\<close>

function ack_loop :: "nat \<Rightarrow> bytes \<Rightarrow> world \<Rightarrow> ((error + unit) \<times> world) option" where
  "ack_loop deadline line w =
     (if now w < deadline then
        (case ser_read 1 w of
           None \<Rightarrow> None
         | Some (ch, w') \<Rightarrow>
             if ch = [] then ack_loop deadline line w'
             else if suffix [CR, LF] (line @ ch) then Some (Inr (), w')
             else ack_loop deadline (line @ ch) w')
      else Some (Inl (TimeoutError ''Timeout waiting for QISEND response''), w))"
  by pat_completeness auto
termination
  by (relation "measure (\<lambda>(d, l, w). length (rx w))") (auto dest!: ser_read_shrinks)

definition qisend_cmd :: "world \<Rightarrow> bytes \<Rightarrow> str" where
  "qisend_cmd w data =
     str_of ''AT+QISEND='' @ show_int (sock_id w) @ str_of '','' @ show_nat (length data)
     @ [of_char CR]"

definition send_raw :: "bytes \<Rightarrow> world \<Rightarrow> ((error + unit) \<times> world) option" where
  "send_raw data w =
     (case encode (qisend_cmd w data) of
        Inl e \<Rightarrow> Some (Inl e, w)
      | Inr at \<Rightarrow>
          (case wait_for_prompt (ser_write at w) of
             None \<Rightarrow> None
           | Some (prompt, w1) \<Rightarrow>
               if \<not> prompt then Some (Inl (TimeoutError ''No '>' prompt''), w1)
               else ack_loop (now w1 + ACK_TIMEOUT) []
                      (ser_write [CTRL_Z] (ser_write data w1))))"

definition close_tcp :: "world \<Rightarrow> ((error + unit) \<times> world) option" where
  "close_tcp w =
     (case send_at (str_of ''AT+QICLOSE='' @ show_int (sock_id w) @ str_of '',10'') 2000 w of
        None \<Rightarrow> None
      | Some (Inl e, w1) \<Rightarrow> Some (Inl e, w1)
      | Some (Inr resp, w1) \<Rightarrow> Some (Inr (), w1))"

section \<open>The client socket\<close>

text \<open>
  \<^verbatim>\<open>client_sock.recv(n)\<close>: the next segment, at most \<open>n\<close> bytes of it, once it has
  arrived. An empty segment is the end of the stream (the peer has closed): \<^verbatim>\<open>recv\<close>
  returns \<^verbatim>\<open>b''\<close>, and goes on doing so.
\<close>

definition recv :: "nat \<Rightarrow> world \<Rightarrow> (bytes \<times> world) option" where
  "recv n w =
     (if n = 0 then Some ([], w)
      else (case cin w of
              [] \<Rightarrow> None
            | (t, seg) # rest \<Rightarrow>
                Some (take n seg,
                      w\<lparr>now := max (now w) t,
                        cin := (if seg = [] then (t, seg) # rest
                                else if length seg \<le> n then rest
                                else (t, drop n seg) # rest)\<rparr>)))"

definition sendall :: "bytes \<Rightarrow> world \<Rightarrow> world" where
  "sendall data w = w\<lparr>cout := cout w @ data\<rparr>"

text \<open>\<^verbatim>\<open>select.select([client_fd, serial_fd], [], [])\<close>: blocks until one of the two
  has something to read, and says which.\<close>

definition client_ready :: "world \<Rightarrow> bool" where
  "client_ready w = (case cin w of [] \<Rightarrow> False | p # _ \<Rightarrow> arrived (now w) p)"

definition serial_ready :: "world \<Rightarrow> bool" where
  "serial_ready w = (in_waiting w \<noteq> 0)"

definition next_arrival :: "world \<Rightarrow> nat option" where
  "next_arrival w =
     (case (cin w, rx w) of
        ([], []) \<Rightarrow> None
      | (p # _, []) \<Rightarrow> Some (fst p)
      | ([], q # _) \<Rightarrow> Some (fst q)
      | (p # _, q # _) \<Rightarrow> Some (min (fst p) (fst q)))"

definition select :: "world \<Rightarrow> (bool \<times> bool \<times> world) option" where
  "select w =
     (if client_ready w \<or> serial_ready w then Some (client_ready w, serial_ready w, w)
      else (case next_arrival w of
              None \<Rightarrow> None
            | Some t \<Rightarrow>
                Some (client_ready (w\<lparr>now := t\<rparr>), serial_ready (w\<lparr>now := t\<rparr>),
                      w\<lparr>now := t\<rparr>)))"

section \<open>handle\_client\<close>

text \<open>An operation either blocks forever (\<open>None\<close>), raises (\<open>Inl\<close>) or returns
  (\<open>Inr\<close>), with the world it leaves.\<close>

type_synonym 'a io = "world \<Rightarrow> ((error + 'a) \<times> world) option"

definition bind_io :: "'a io \<Rightarrow> ('a \<Rightarrow> 'b io) \<Rightarrow> 'b io" where
  "bind_io m f w =
     (case m w of
        None \<Rightarrow> None
      | Some (Inl e, w') \<Rightarrow> Some (Inl e, w')
      | Some (Inr x, w') \<Rightarrow> f x w')"

definition return_io :: "'a \<Rightarrow> 'a io" where
  "return_io x w = Some (Inr x, w)"

definition raise_io :: "error \<Rightarrow> 'a io" where
  "raise_io e w = Some (Inl e, w)"

definition recv_io :: "nat \<Rightarrow> bytes io" where
  "recv_io n w = (case recv n w of None \<Rightarrow> None | Some (bs, w') \<Rightarrow> Some (Inr bs, w'))"

definition sendall_io :: "bytes \<Rightarrow> unit io" where
  "sendall_io data w = Some (Inr (), sendall data w)"

text \<open>\<^verbatim>\<open>struct.unpack\<close> with the formats \<^verbatim>\<open>!BB\<close>, \<^verbatim>\<open>!BBBB\<close> and \<^verbatim>\<open>!H\<close>.\<close>

definition unpack_BB :: "bytes \<Rightarrow> (nat \<times> nat) io" where
  "unpack_BB b =
     (case b of [a, c] \<Rightarrow> return_io (of_char a, of_char c) | _ \<Rightarrow> raise_io StructError)"

definition unpack_BBBB :: "bytes \<Rightarrow> (nat \<times> nat \<times> nat \<times> nat) io" where
  "unpack_BBBB b =
     (case b of
        [a, c, d, e] \<Rightarrow> return_io (of_char a, of_char c, of_char d, of_char e)
      | _ \<Rightarrow> raise_io StructError)"

definition unpack_H :: "bytes \<Rightarrow> int io" where
  "unpack_H b =
     (case b of
        [a, c] \<Rightarrow> return_io (int (of_char a) * 256 + int (of_char c))
      | _ \<Rightarrow> raise_io StructError)"

text \<open>\<^verbatim>\<open>socket.inet_ntoa\<close>\<close>

definition inet_ntoa :: "bytes \<Rightarrow> str io" where
  "inet_ntoa b =
     (case b of
        [a, c, d, e] \<Rightarrow>
          return_io (show_nat (of_char a) @ str_of ''.'' @ show_nat (of_char c) @ str_of ''.''
                     @ show_nat (of_char d) @ str_of ''.'' @ show_nat (of_char e))
      | _ \<Rightarrow> raise_io OSError)"

definition first_byte :: "bytes \<Rightarrow> nat io" where
  "first_byte b = (case b of [] \<Rightarrow> raise_io IndexError | a # _ \<Rightarrow> return_io (of_char a))"

definition decode_io :: "bytes \<Rightarrow> str io" where
  "decode_io b = (case decode_strict b of Inl e \<Rightarrow> raise_io e | Inr s \<Rightarrow> return_io s)"

text \<open>The SOCKS5 handshake: the greeting is read, the methods are read and dropped, and
  the method reply \<^verbatim>\<open>05 00\<close> is sent.\<close>

definition socks_handshake :: "unit io" where
  "socks_handshake =
     bind_io (recv_io 2) (\<lambda>greeting.
     bind_io (unpack_BB greeting) (\<lambda>(ver, nmethods).
     bind_io (recv_io nmethods) (\<lambda>methods.
     sendall_io [CHR 0x05, CHR 0x00])))"

text \<open>
  The CONNECT request, up to the port. The result \<open>None\<close> is the plain \<^verbatim>\<open>return\<close> of
  the two rejections; \<open>Some (addr, port)\<close> is a request to open.
\<close>

definition request_port :: "str \<Rightarrow> (str \<times> int) option io" where
  "request_port addr =
     bind_io (recv_io 2) (\<lambda>pb.
     bind_io (unpack_H pb) (\<lambda>port.
     return_io (Some (addr, port))))"

definition connect_request :: "(str \<times> int) option io" where
  "connect_request =
     bind_io (recv_io 4) (\<lambda>hdr.
     bind_io (unpack_BBBB hdr) (\<lambda>(v, cmd, rsv, atyp).
       if cmd \<noteq> 1 then return_io None
       else if atyp = 1 then
         bind_io (bind_io (recv_io 4) inet_ntoa) request_port
       else if atyp = 3 then
         bind_io
           (bind_io (recv_io 1) (\<lambda>b.
            bind_io (first_byte b) (\<lambda>alen.
            bind_io (recv_io alen) decode_io)))
           request_port
       else return_io None))"

definition reply_failed :: bytes where
  "reply_failed = [CHR 0x05, CHR 0x01, CHR 0x00, CHR 0x01] @ replicate 6 (CHR 0x00)"

definition reply_succeeded :: bytes where
  "reply_succeeded = [CHR 0x05, CHR 0x00, CHR 0x00, CHR 0x01] @ replicate 6 (CHR 0x00)"

subsection \<open>The relay loop\<close>

text \<open>The \<^verbatim>\<open>while offset < len(data)\<close> loop: one \<^verbatim>\<open>send_raw\<close> per slice.\<close>

function send_chunks :: "bytes \<Rightarrow> nat \<Rightarrow> unit io" where
  "send_chunks data offset w =
     (if offset < length data then
        (case send_raw (take MAX_CHUNK_SIZE (drop offset data)) w of
           None \<Rightarrow> None
         | Some (Inl e, w') \<Rightarrow> Some (Inl e, w')
         | Some (Inr u, w') \<Rightarrow>
             send_chunks data (offset + length (take MAX_CHUNK_SIZE (drop offset data))) w')
      else Some (Inr (), w))"
  by pat_completeness auto
termination
  by (relation "measure (\<lambda>(data, offset, w). length data - offset)")
     (auto simp: MAX_CHUNK_SIZE_def)

text \<open>The values \<^verbatim>\<open>chunk\<close> takes in that loop, in order.\<close>

function chunks_from :: "bytes \<Rightarrow> nat \<Rightarrow> bytes list" where
  "chunks_from data offset =
     (if offset < length data then
        take MAX_CHUNK_SIZE (drop offset data)
        # chunks_from data (offset + length (take MAX_CHUNK_SIZE (drop offset data)))
      else [])"
  by pat_completeness auto
termination
  by (relation "measure (\<lambda>(data, offset). length data - offset)")
     (auto simp: MAX_CHUNK_SIZE_def)

text \<open>One \<^verbatim>\<open>send_raw\<close> per element of a list, in order, stopping at the first one that
  raises or never returns: what "one chunked send per chunk" means.\<close>

fun send_each :: "bytes list \<Rightarrow> unit io" where
  "send_each [] w = Some (Inr (), w)"
| "send_each (c # cs) w =
     (case send_raw c w of
        None \<Rightarrow> None
      | Some (Inl e, w') \<Rightarrow> Some (Inl e, w')
      | Some (Inr u, w') \<Rightarrow> send_each cs w')"

text \<open>Branch a) of the loop body: \<open>Inr False\<close> is \<^verbatim>\<open>break\<close>.\<close>

definition client_to_modem :: "bool io" where
  "client_to_modem =
     bind_io (recv_io 4096) (\<lambda>data.
       if data = [] then return_io False
       else bind_io (send_chunks data 0) (\<lambda>u. return_io True))"

text \<open>The \<^verbatim>\<open>while len(payload) < length\<close> loop.\<close>

function read_payload :: "int \<Rightarrow> bytes \<Rightarrow> world \<Rightarrow> (bytes \<times> world) option" where
  "read_payload len payload w =
     (if int (length payload) < len then
        (case ser_read (nat (len - int (length payload))) w of
           None \<Rightarrow> None
         | Some (bs, w') \<Rightarrow> read_payload len (payload @ bs) w')
      else Some (payload, w))"
  by pat_completeness auto
termination
  by (relation "measure (\<lambda>(len, payload, w). nat (len - int (length payload)))")
     (auto simp: ser_read_def split: if_splits)

text \<open>Branch b) of the loop body: \<open>Inr False\<close> is \<^verbatim>\<open>break\<close>.\<close>

definition modem_to_client :: "bool io" where
  "modem_to_client w =
     (case ser_readline w of
        None \<Rightarrow> None
      | Some (raw, w1) \<Rightarrow>
          if prefix (str_of ''+QIURC'') (strip (decode_ignore raw))
             \<and> contains (str_of ''recv'') (strip (decode_ignore raw))
          then
            (case py_int (last (split 44 (strip (decode_ignore raw)))) of
               None \<Rightarrow> Some (Inl ValueError, w1)
             | Some len \<Rightarrow>
                 (case read_payload len [] w1 of
                    None \<Rightarrow> None
                  | Some (payload, w2) \<Rightarrow> Some (Inr True, sendall payload w2)))
          else if contains (str_of ''closed'') (strip (decode_ignore raw))
          then Some (Inr False, w1)
          else Some (Inr True, w1))"

text \<open>One pass through the body of \<^verbatim>\<open>while True\<close>: \<open>Inr True\<close> goes round again,
  \<open>Inr False\<close> is \<^verbatim>\<open>break\<close>. Both branches test the \<^verbatim>\<open>rlist\<close> that \<^verbatim>\<open>select\<close>
  returned.\<close>

definition relay_step :: "bool io" where
  "relay_step w =
     (case select w of
        None \<Rightarrow> None
      | Some (c_ready, s_ready, w0) \<Rightarrow>
          (case (if c_ready then client_to_modem w0 else Some (Inr True, w0)) of
             None \<Rightarrow> None
           | Some (Inl e, w1) \<Rightarrow> Some (Inl e, w1)
           | Some (Inr False, w1) \<Rightarrow> Some (Inr False, w1)
           | Some (Inr True, w1) \<Rightarrow>
               (if s_ready then modem_to_client w1 else Some (Inr True, w1))))"

partial_function (option) relay_loop :: "world \<Rightarrow> ((error + unit) \<times> world) option" where
  "relay_loop w =
     Option.bind (relay_step w) (\<lambda>(r, w').
       case r of
         Inl e \<Rightarrow> Some (Inl e, w')
       | Inr again \<Rightarrow> if again then relay_loop w' else Some (Inr (), w'))"

declare relay_loop.simps [code]

text \<open>The body of the \<^verbatim>\<open>try\<close>.\<close>

definition handle_client_body :: "unit io" where
  "handle_client_body =
     bind_io socks_handshake (\<lambda>u.
     bind_io connect_request (\<lambda>req.
       case req of
         None \<Rightarrow> return_io ()
       | Some (addr, port) \<Rightarrow>
           bind_io (open_tcp_direct_push addr port) (\<lambda>opened.
             if \<not> opened then sendall_io reply_failed
             else
               bind_io (sendall_io reply_succeeded) (\<lambda>u.
               bind_io relay_loop (\<lambda>u.
               close_tcp)))))"

text \<open>\<^verbatim>\<open>finally: client_sock.close()\<close>\<close>

definition handle_client :: "unit io" where
  "handle_client w =
     (case handle_client_body w of
        None \<Rightarrow> None
      | Some (r, w') \<Rightarrow> Some (r, w'\<lparr>cclosed := True\<rparr>))"

section \<open>Properties\<close>

text \<open>The defining equations of the loops are unfolded by hand, one turn at a time.\<close>

declare wait_for_rdy.simps [simp del] send_at_loop.simps [simp del] open_loop.simps [simp del]
  wait_for_prompt_loop.simps [simp del] ack_loop.simps [simp del] send_chunks.simps [simp del]
  chunks_from.simps [simp del] read_payload.simps [simp del]

text \<open>A world in which nothing has happened yet, for the concrete runs below.\<close>

definition idle :: world where
  "idle = \<lparr>now = 0, rx = [], tx = [], cid = 1, sock_id = 0, cin = [], cout = [],
           cclosed = False\<rparr>"

text \<open>\<open>at t bs\<close>: the bytes \<open>bs\<close>, all arriving at time \<open>t\<close>.\<close>

definition at :: "nat \<Rightarrow> bytes \<Rightarrow> (nat \<times> char) list" where
  "at t bs = map (Pair t) bs"

text \<open>Byte strings the modem sends in the concrete runs.\<close>

definition ok_line :: bytes where
  "ok_line = [CR, LF] @ ''OK'' @ [CR, LF]"

definition error_line :: bytes where
  "error_line = [CR, LF] @ ''ERROR'' @ [CR, LF]"

definition urc_recv :: bytes where
  "urc_recv = ''+QIURC: '' @ [CHR 0x22] @ ''recv'' @ [CHR 0x22] @ '',0,5'' @ [CR, LF] @ ''hello''"

text \<open>The complete lines of a byte stream, each with its LF; what follows the last LF is
  not a line yet.\<close>

fun lf_lines_from :: "bytes \<Rightarrow> bytes \<Rightarrow> bytes list" where
  "lf_lines_from cur [] = []"
| "lf_lines_from cur (b # bs) =
     (if b = LF then (cur @ [b]) # lf_lines_from [] bs else lf_lines_from (cur @ [b]) bs)"

definition lf_lines :: "bytes \<Rightarrow> bytes list" where
  "lf_lines bs = lf_lines_from [] bs"

text \<open>
  What the scan of \<open>open_tcp_direct_push\<close> looks for: a line decides when it holds
  \<^verbatim>\<open>+QIOPEN: <id>,\<close> or is \<^verbatim>\<open>CONNECT\<close>; it decides for success when it holds
  \<^verbatim>\<open>+QIOPEN: <id>,0\<close> or is \<^verbatim>\<open>CONNECT\<close>. The verdict of a list of lines is that of its first
  deciding line, and failure when there is none.
\<close>

definition open_decides :: "str \<Rightarrow> str \<Rightarrow> bool" where
  "open_decides sid line =
     (contains (str_of ''+QIOPEN: '' @ sid @ str_of '','') line \<or> line = str_of ''CONNECT'')"

definition open_succeeds :: "str \<Rightarrow> str \<Rightarrow> bool" where
  "open_succeeds sid line =
     (contains (str_of ''+QIOPEN: '' @ sid @ str_of '',0'') line \<or> line = str_of ''CONNECT'')"

definition open_verdict :: "str \<Rightarrow> str list \<Rightarrow> bool" where
  "open_verdict sid lines =
     (case find (open_decides sid) lines of None \<Rightarrow> False | Some l \<Rightarrow> open_succeeds sid l)"

text \<open>An operation that touched only the serial port and the clock.\<close>

definition serial_only :: "world \<Rightarrow> world \<Rightarrow> bool" where
  "serial_only w w' =
     (cid w' = cid w \<and> sock_id w' = sock_id w \<and> cin w' = cin w \<and> cout w' = cout w
      \<and> cclosed w' = cclosed w)"

definition qiopen_ok :: bytes where
  "qiopen_ok = [CR, LF] @ ''+QIOPEN: 0,0'' @ [CR, LF]"

definition qiopen_566 :: bytes where
  "qiopen_566 = [CR, LF] @ ''+QIOPEN: 0,566'' @ [CR, LF]"

definition connect_line :: bytes where
  "connect_line = [CR, LF] @ ''CONNECT'' @ [CR, LF]"

text \<open>The bytes of the open command for 1.2.3.4, port 80.\<close>

definition qiopen_1234 :: bytes where
  "qiopen_1234 = ''AT+QIOPEN=1,0,'' @ [CHR 0x22] @ ''TCP'' @ [CHR 0x22] @ '','' @ [CHR 0x22]
                 @ ''1.2.3.4'' @ [CHR 0x22] @ '',80,0,1'' @ [CR]"








text \<open>What a SOCKS5 client sends: the greeting, and requests with the command CONNECT
  or BIND and an IPv4 or IPv6 address.\<close>

definition greeting :: bytes where
  "greeting = [CHR 0x05, CHR 0x01, CHR 0x00]"

definition connect_ipv4 :: bytes where
  "connect_ipv4 = [CHR 0x05, CHR 0x01, CHR 0x00, CHR 0x01, CHR 0x01, CHR 0x02, CHR 0x03, CHR 0x04,
                   CHR 0x00, CHR 0x50]"

definition bind_ipv4 :: bytes where
  "bind_ipv4 = [CHR 0x05, CHR 0x02, CHR 0x00, CHR 0x01, CHR 0x01, CHR 0x02, CHR 0x03, CHR 0x04,
                CHR 0x00, CHR 0x50]"

definition connect_ipv6 :: bytes where
  "connect_ipv6 = [CHR 0x05, CHR 0x01, CHR 0x00, CHR 0x04] @ replicate 16 (CHR 0x00)
                  @ [CHR 0x00, CHR 0x50]"

text \<open>An operation that only read from the client socket.\<close>

definition reads_client :: "world \<Rightarrow> world \<Rightarrow> bool" where
  "reads_client w w' =
     (cout w' = cout w \<and> tx w' = tx w \<and> rx w' = rx w \<and> cid w' = cid w
      \<and> sock_id w' = sock_id w \<and> cclosed w' = cclosed w)"

subsection \<open>Client to modem: slicing the payload\<close>

lemma concat_chunks_from: "concat (chunks_from data offset) = drop offset data"
proof (induction data offset rule: chunks_from.induct)
  case (1 data offset)
  show ?case
  proof (cases "offset < length data")
    case True
    have tail: "drop (offset + length (take MAX_CHUNK_SIZE (drop offset data))) data
                  = drop MAX_CHUNK_SIZE (drop offset data)"
      by (cases "MAX_CHUNK_SIZE \<le> length data - offset") (simp_all add: min_def add.commute)
    have "concat (chunks_from data offset) =
            take MAX_CHUNK_SIZE (drop offset data)
            @ drop (offset + length (take MAX_CHUNK_SIZE (drop offset data))) data"
      using True "1.IH" by (subst chunks_from.simps) simp
    then show ?thesis
      by (simp only: tail append_take_drop_id)
  next
    case False
    then show ?thesis by (subst chunks_from.simps) simp
  qed
qed

lemma chunks_from_bounded:
  "c \<in> set (chunks_from data offset) \<Longrightarrow> c \<noteq> [] \<and> length c \<le> MAX_CHUNK_SIZE"
proof (induction data offset rule: chunks_from.induct)
  case (1 data offset)
  show ?case
  proof (cases "offset < length data")
    case True
    from "1.prems" True
    consider "c = take MAX_CHUNK_SIZE (drop offset data)"
      | "c \<in> set (chunks_from data (offset + length (take MAX_CHUNK_SIZE (drop offset data))))"
      by (subst (asm) chunks_from.simps) auto
    then show ?thesis
    proof cases
      case 1
      with True show ?thesis by (simp add: MAX_CHUNK_SIZE_def)
    next
      case 2
      with True "1.IH" show ?thesis by simp
    qed
  next
    case False
    with "1.prems" show ?thesis by (subst (asm) chunks_from.simps) simp
  qed
qed

lemma chunks_from_single:
  assumes "data \<noteq> []" and "length data \<le> MAX_CHUNK_SIZE"
  shows "chunks_from data 0 = [data]"
proof -
  have "chunks_from data (length data) = []"
    by (subst chunks_from.simps) simp
  with assms show ?thesis
    by (subst chunks_from.simps) simp
qed

lemma send_chunks_send_each:
  "send_chunks data offset w = send_each (chunks_from data offset) w"
proof (induction data offset w rule: send_chunks.induct)
  case (1 data offset w)
  show ?case
  proof (cases "offset < length data")
    case True
    then show ?thesis
      using "1.IH"
      by (subst send_chunks.simps, subst chunks_from.simps)
         (auto split: option.splits sum.splits prod.splits)
  next
    case False
    then show ?thesis
      by (subst send_chunks.simps, subst chunks_from.simps) simp
  qed
qed

text \<open>
  C3. Every payload the relay loop hands to the send path is cut into slices that are
  non-empty and at most \<open>MAX_CHUNK_SIZE\<close> bytes long, the slices concatenated in order are
  the payload, a non-empty payload of at most \<open>MAX_CHUNK_SIZE\<close> bytes is one slice, and
  the loop calls \<open>send_raw\<close> once per slice, in that order (stopping at the first call
  that fails).
\<close>

theorem send_path_chunking:
  "concat (chunks_from data 0) = data
   \<and> (\<forall>c \<in> set (chunks_from data 0). c \<noteq> [] \<and> length c \<le> MAX_CHUNK_SIZE)
   \<and> (data \<noteq> [] \<and> length data \<le> MAX_CHUNK_SIZE \<longrightarrow> chunks_from data 0 = [data])
   \<and> send_chunks data 0 w = send_each (chunks_from data 0) w"
  using concat_chunks_from [of data 0] chunks_from_bounded [of _ data 0]
    chunks_from_single [of data] send_chunks_send_each [of data 0 w]
  by auto

theorem send_path_chunking_witness:
  "''GET'' \<noteq> [] \<and> length ''GET'' \<le> MAX_CHUNK_SIZE
   \<and> chunks_from ''GET'' 0 = [''GET'']
   \<and> ''GET'' \<in> set (chunks_from ''GET'' 0)
   \<and> send_chunks ''GET'' 0 idle = send_each [''GET''] idle"
proof -
  have h: "''GET'' \<noteq> [] \<and> length ''GET'' \<le> MAX_CHUNK_SIZE"
    by (simp add: MAX_CHUNK_SIZE_def)
  from send_path_chunking [of "''GET''" idle] h
  have one: "chunks_from ''GET'' 0 = [''GET'']"
    and each: "send_chunks ''GET'' 0 idle = send_each (chunks_from ''GET'' 0) idle"
    by blast+
  from h one each show ?thesis by simp
qed

subsection \<open>The command exchange\<close>

lemma reset_discards:
  assumes "\<forall>p \<in> set pending. arrived (now w) p"
  shows "reset_input_buffer (w\<lparr>rx := pending @ rx w\<rparr>) = reset_input_buffer w"
  using assms by (simp add: reset_input_buffer_def dropWhile_append2)

lemma send_at_ok_run:
  "send_at (str_of ''ATE0'') 2000 (idle\<lparr>rx := at 5 ok_line\<rparr>)
     = Some (Inr (str_of ok_line), idle\<lparr>now := 5, tx := ''ATE0'' @ [CR]\<rparr>)"
  by code_simp

lemma send_at_error_run:
  "send_at (str_of ''AT'') 2000 (idle\<lparr>rx := at 5 error_line\<rparr>)
     = Some (Inr (str_of error_line), idle\<lparr>now := 5, tx := ''AT'' @ [CR]\<rparr>)"
  by code_simp

lemma send_at_late_run:
  "send_at (str_of ''AT'') 2000 (idle\<lparr>rx := at 3000 ''x''\<rparr>)
     = Some (Inr (str_of ''x''), idle\<lparr>now := 3000, tx := ''AT'' @ [CR]\<rparr>)"
  by code_simp

text \<open>
  C10. \<open>_send_at\<close> resets the input buffer before it writes the command: bytes that had
  been received and not read when it was called leave no trace. The outcome, the
  response text and the world left behind are those of a call made with these bytes
  never received.
\<close>

theorem send_at_discards_pending:
  assumes "\<forall>p \<in> set pending. arrived (now w) p"
  shows "send_at cmd timeout (w\<lparr>rx := pending @ rx w\<rparr>) = send_at cmd timeout w"
  unfolding send_at_def using reset_discards [OF assms] by simp

text \<open>A receive notification with its five payload bytes is pending when the command is
  issued; the answer to the command arrives later.\<close>

theorem send_at_discards_pending_witness:
  "send_at (str_of ''ATE0'') 2000 (idle\<lparr>rx := at 0 urc_recv @ at 5 ok_line\<rparr>)
     = Some (Inr (str_of ok_line), idle\<lparr>now := 5, tx := ''ATE0'' @ [CR]\<rparr>)"
proof -
  have pending: "\<forall>p \<in> set (at 0 urc_recv). arrived (now (idle\<lparr>rx := at 5 ok_line\<rparr>)) p"
    by (simp add: at_def arrived_def)
  from send_at_discards_pending [OF pending, of "str_of ''ATE0''" 2000] send_at_ok_run
  show ?thesis by simp
qed

lemma send_at_loop_exit:
  "send_at_loop d resp w = Some (resp', w') \<Longrightarrow>
     contains (str_of ''OK'') resp' \<or> contains (str_of ''ERROR'') resp' \<or> d \<le> now w'"
proof (induction d resp w rule: send_at_loop.induct)
  case (1 d resp w)
  from "1.prems" "1.IH" show ?case
    by (subst (asm) send_at_loop.simps)
       (auto split: if_splits option.splits)
qed

lemma encode_error: "encode s = Inl e \<Longrightarrow> e = UnicodeEncodeError"
  by (induction s arbitrary: e) (auto split: option.splits sum.splits)

text \<open>
  C6, as the code has it. \<open>_send_at\<close> raises neither a timeout nor a rejection: whenever it
  returns it returns the accumulated text, which holds OK or ERROR unless the deadline
  has passed. The one exception it can raise is that of encoding the command.
\<close>

theorem send_at_returns_text:
  assumes "send_at cmd timeout w = Some (r, w')"
  shows "(\<exists>resp. r = Inr resp
            \<and> (contains (str_of ''OK'') resp \<or> contains (str_of ''ERROR'') resp
                \<or> now w + timeout \<le> now w'))
         \<or> r = Inl UnicodeEncodeError"
  using assms
  by (auto simp: send_at_def Let_def ser_write_def reset_input_buffer_def
           split: sum.splits option.splits dest: encode_error send_at_loop_exit)

theorem send_at_returns_text_witness:
  "send_at (str_of ''AT'') 2000 (idle\<lparr>rx := at 3000 ''x''\<rparr>)
     = Some (Inr (str_of ''x''), idle\<lparr>now := 3000, tx := ''AT'' @ [CR]\<rparr>)
   \<and> (\<exists>resp. (Inr (str_of ''x'') :: error + str) = Inr resp
         \<and> (contains (str_of ''OK'') resp \<or> contains (str_of ''ERROR'') resp
             \<or> now (idle\<lparr>rx := at 3000 ''x''\<rparr>) + 2000
                 \<le> now (idle\<lparr>now := 3000, tx := ''AT'' @ [CR]\<rparr>)))"
  using send_at_returns_text [OF send_at_late_run] send_at_late_run by simp

text \<open>The modem answers ERROR, or answers too late: in both runs \<open>_send_at\<close> returns the
  text as it would return a success.\<close>

theorem send_at_fails_counterexample:
  "send_at (str_of ''AT'') 2000 (idle\<lparr>rx := at 5 error_line\<rparr>)
     = Some (Inr (str_of error_line), idle\<lparr>now := 5, tx := ''AT'' @ [CR]\<rparr>)
   \<and> send_at (str_of ''AT'') 2000 (idle\<lparr>rx := at 3000 ''x''\<rparr>)
     = Some (Inr (str_of ''x''), idle\<lparr>now := 3000, tx := ''AT'' @ [CR]\<rparr>)"
  using send_at_error_run send_at_late_run by simp

subsection \<open>Waiting\<close>

lemma lf_lines_from_none: "LF \<notin> set bs \<Longrightarrow> lf_lines_from cur bs = []"
  by (induction bs arbitrary: cur) auto

lemma lf_lines_from_first:
  "LF \<in> set bs \<Longrightarrow>
     lf_lines_from cur bs =
       (cur @ takeWhile (\<lambda>b. b \<noteq> LF) bs @ [LF])
       # lf_lines_from [] (drop (Suc (length (takeWhile (\<lambda>b. b \<noteq> LF) bs))) bs)"
  by (induction bs arbitrary: cur) auto

lemma take_upto_first:
  "x \<in> set xs \<Longrightarrow>
     take (Suc (length (takeWhile (\<lambda>y. y \<noteq> x) xs))) xs = takeWhile (\<lambda>y. y \<noteq> x) xs @ [x]"
  by (induction xs) auto

lemma ser_readline_Some:
  assumes "ser_readline w = Some (line, w')"
  shows "LF \<in> set (map snd (rx w))"
    and "line = takeWhile (\<lambda>b. b \<noteq> LF) (map snd (rx w)) @ [LF]"
    and "map snd (rx w') =
           drop (Suc (length (takeWhile (\<lambda>b. b \<noteq> LF) (map snd (rx w))))) (map snd (rx w))"
proof -
  let ?k = "length (takeWhile (\<lambda>p. snd p \<noteq> LF) (rx w))"
  have k: "?k = length (takeWhile (\<lambda>b. b \<noteq> LF) (map snd (rx w)))"
    by (simp add: takeWhile_map comp_def)
  from assms show lf: "LF \<in> set (map snd (rx w))"
    by (auto simp: ser_readline_def split: if_splits)
  from assms lf have rd: "ser_read (Suc ?k) w = Some (line, w')"
    by (auto simp: ser_readline_def split: if_splits)
  then have "line = take (Suc ?k) (map snd (rx w))"
    by (auto simp: ser_read_def take_map split: if_splits)
  with lf show "line = takeWhile (\<lambda>b. b \<noteq> LF) (map snd (rx w)) @ [LF]"
    by (simp only: k take_upto_first)
  from rd show "map snd (rx w') =
           drop (Suc (length (takeWhile (\<lambda>b. b \<noteq> LF) (map snd (rx w))))) (map snd (rx w))"
    by (auto simp: ser_read_def drop_map k [symmetric] split: if_splits)
qed

lemma takeWhile_shorter: "\<exists>x \<in> set xs. \<not> P x \<Longrightarrow> length (takeWhile P xs) < length xs"
  by (induction xs) auto

lemma ser_readline_None: "ser_readline w = None \<Longrightarrow> LF \<notin> set (map snd (rx w))"
proof (rule ccontr)
  assume none: "ser_readline w = None" and "\<not> LF \<notin> set (map snd (rx w))"
  then have "LF \<in> snd ` set (rx w)" by simp
  then have "length (takeWhile (\<lambda>p. snd p \<noteq> LF) (rx w)) < length (rx w)"
    by (intro takeWhile_shorter) force
  with none \<open>LF \<in> snd ` set (rx w)\<close> show False
    by (auto simp: ser_readline_def ser_read_def split: if_splits)
qed

lemma wait_for_rdy_iff:
  "wait_for_rdy w \<noteq> None \<longleftrightarrow>
     (\<exists>l \<in> set (lf_lines (map snd (rx w))). strip (decode_ignore l) = str_of ''RDY'')"
proof (induction w rule: wait_for_rdy.induct)
  case (1 w)
  show ?case
  proof (cases "ser_readline w")
    case None
    from ser_readline_None [OF None] have "lf_lines (map snd (rx w)) = []"
      by (simp add: lf_lines_def lf_lines_from_none)
    with None show ?thesis
      by (subst wait_for_rdy.simps) simp
  next
    case (Some r)
    obtain line w' where r: "r = (line, w')" by (cases r)
    from Some r have rl: "ser_readline w = Some (line, w')" by simp
    have ls: "lf_lines (map snd (rx w)) = line # lf_lines (map snd (rx w'))"
      using ser_readline_Some [OF rl]
      by (simp add: lf_lines_def lf_lines_from_first)
    show ?thesis
    proof (cases "strip (decode_ignore line) = str_of ''RDY''")
      case True
      with rl ls show ?thesis
        by (subst wait_for_rdy.simps) simp
    next
      case False
      have "wait_for_rdy w = wait_for_rdy w'"
        using rl False by (subst wait_for_rdy.simps) simp
      with "1.IH" [OF rl refl False] ls False show ?thesis
        by simp
    qed
  qed
qed

lemma fold_max_le: "\<forall>t \<in> set ts. t \<le> a \<Longrightarrow> fold max ts (a::nat) = a"
  by (induction ts) (auto simp: max_def)

lemma ser_read_in_waiting:
  "ser_read (in_waiting w) w =
     Some (map snd (takeWhile (arrived (now w)) (rx w)),
           w\<lparr>rx := dropWhile (arrived (now w)) (rx w)\<rparr>)"
proof -
  let ?n = "length (takeWhile (arrived (now w)) (rx w))"
  have t: "take ?n (rx w) = takeWhile (arrived (now w)) (rx w)"
    by (metis append_eq_conv_conj takeWhile_dropWhile_id)
  have d: "drop ?n (rx w) = dropWhile (arrived (now w)) (rx w)"
    by (metis append_eq_conv_conj takeWhile_dropWhile_id)
  have "\<forall>t \<in> set (map fst (takeWhile (arrived (now w)) (rx w))). t \<le> now w"
    by (auto dest!: set_takeWhileD simp: arrived_def)
  then have m: "fold max (map fst (takeWhile (arrived (now w)) (rx w))) (now w) = now w"
    by (rule fold_max_le)
  have "?n \<le> length (rx w)" by (rule length_takeWhile_le)
  then show ?thesis
    by (simp add: ser_read_def in_waiting_def t d m)
qed

lemma open_loop_returns:
  "\<exists>b w'. open_loop d buf w = Some (b, w') \<and> now w' \<le> max (now w) (d + 99)"
proof (induction d buf w rule: open_loop.induct)
  case (1 d buf w)
  show ?case
  proof (cases "now w < d")
    case False
    then show ?thesis by (subst open_loop.simps) auto
  next
    case True
    show ?thesis
    proof (cases "in_waiting w = 0")
      case True
      from "1.IH"(2) [OF \<open>now w < d\<close>] True
      obtain b w' where "open_loop d buf (sleep 100 w) = Some (b, w')"
        and "now w' \<le> max (now (sleep 100 w)) (d + 99)" by auto
      with True \<open>now w < d\<close> show ?thesis
        by (subst open_loop.simps) (auto simp: sleep_def)
    next
      case False
      let ?bs = "map snd (takeWhile (arrived (now w)) (rx w))"
      let ?w1 = "w\<lparr>rx := dropWhile (arrived (now w)) (rx w)\<rparr>"
      let ?buf = "buf @ decode_ignore ?bs"
      show ?thesis
      proof (cases "scan_lines (show_int (sock_id ?w1)) (splitlines ?buf)")
        case (Some b)
        with False \<open>now w < d\<close> show ?thesis
          by (subst open_loop.simps) (simp add: ser_read_in_waiting)
      next
        case None
        from "1.IH"(1) [OF \<open>now w < d\<close> _ ser_read_in_waiting refl None] False
        obtain b w' where "open_loop d ?buf (sleep 100 ?w1) = Some (b, w')"
          and "now w' \<le> max (now (sleep 100 ?w1)) (d + 99)" by auto
        with None False \<open>now w < d\<close> show ?thesis
          by (subst open_loop.simps) (auto simp: ser_read_in_waiting sleep_def)
      qed
    qed
  qed
qed

text \<open>
  C9, as the code has it. The polling loop of \<open>open_tcp_direct_push\<close> never blocks and
  ends no later than 99 ms after its deadline. \<open>_wait_for_rdy\<close> has no deadline: it
  returns exactly when a complete line that reads RDY arrives, and never otherwise.
\<close>

theorem blocking_waits:
  "(\<exists>b w'. open_loop d buf w = Some (b, w') \<and> now w' \<le> max (now w) (d + 99))
   \<and> (wait_for_rdy w \<noteq> None \<longleftrightarrow>
        (\<exists>l \<in> set (lf_lines (map snd (rx w))). strip (decode_ignore l) = str_of ''RDY''))"
  using open_loop_returns [of d buf w] wait_for_rdy_iff [of w] by blast

theorem blocking_waits_witness:
  "(\<exists>l \<in> set (lf_lines (map snd (rx (idle\<lparr>rx := at 7 (''RDY'' @ [CR, LF])\<rparr>)))).
      strip (decode_ignore l) = str_of ''RDY'')
   \<and> wait_for_rdy (idle\<lparr>rx := at 7 (''RDY'' @ [CR, LF])\<rparr>) \<noteq> None"
proof -
  have line: "\<exists>l \<in> set (lf_lines (map snd (rx (idle\<lparr>rx := at 7 (''RDY'' @ [CR, LF])\<rparr>)))).
      strip (decode_ignore l) = str_of ''RDY''"
    by code_simp
  with blocking_waits [of 0 "[]" "idle\<lparr>rx := at 7 (''RDY'' @ [CR, LF])\<rparr>"]
  show ?thesis by blast
qed

text \<open>A modem that stays silent, and one that only ever says something else: the wait
  for the ready banner never returns.\<close>

theorem wait_for_rdy_counterexample:
  "wait_for_rdy idle = None
   \<and> wait_for_rdy (idle\<lparr>rx := at 0 (''APP RDY'' @ [CR, LF])\<rparr>) = None"
  by code_simp

subsection \<open>Opening a socket\<close>

lemma contains_appendD: "contains (p @ q) s \<Longrightarrow> contains p s"
  by (induction s) (auto dest: append_prefixD)

lemma open_succeeds_decides: "open_succeeds sid l \<Longrightarrow> open_decides sid l"
proof -
  have "str_of ''+QIOPEN: '' @ sid @ str_of '',0''
          = (str_of ''+QIOPEN: '' @ sid @ str_of '','') @ str_of ''0''"
    by (simp add: str_of_def)
  then show "open_succeeds sid l \<Longrightarrow> open_decides sid l"
    unfolding open_succeeds_def open_decides_def
    by (metis contains_appendD)
qed

lemma scan_lines_find:
  "scan_lines sid ls = map_option (open_succeeds sid) (find (open_decides sid) ls)"
proof (induction ls)
  case Nil
  show ?case by simp
next
  case (Cons l ls)
  show ?case
  proof (cases "open_succeeds sid l")
    case True
    with open_succeeds_decides [OF True] show ?thesis
      by (simp add: open_succeeds_def)
  next
    case False
    with Cons show ?thesis
      by (auto simp: open_succeeds_def open_decides_def)
  qed
qed

lemma scan_lines_verdict:
  "scan_lines sid ls = Some b \<Longrightarrow> open_verdict sid ls = b"
  "scan_lines sid ls = None \<Longrightarrow> open_verdict sid ls = False"
  by (auto simp: scan_lines_find open_verdict_def split: option.splits)

lemma serial_only_refl: "serial_only w w"
  by (simp add: serial_only_def)

lemma serial_only_trans: "serial_only w w1 \<Longrightarrow> serial_only w1 w2 \<Longrightarrow> serial_only w w2"
  by (simp add: serial_only_def)

lemma serial_only_prims:
  "ser_read n w = Some (bs, w') \<Longrightarrow> serial_only w w'"
  "serial_only w (ser_write data w)"
  "serial_only w (reset_input_buffer w)"
  "serial_only w (sleep ms w)"
  by (auto simp: serial_only_def ser_read_def ser_write_def reset_input_buffer_def sleep_def
           split: if_splits)

lemma send_at_loop_step:
  assumes "send_at_loop d resp w = Some (resp', w')" and "now w < d"
  shows "\<exists>bs w1 resp1. ser_read (if in_waiting w = 0 then 1 else in_waiting w) w = Some (bs, w1)
           \<and> (w' = w1 \<or> send_at_loop d resp1 w1 = Some (resp', w'))"
  using assms
  by (subst (asm) send_at_loop.simps) (auto split: if_splits option.splits)

lemma send_at_loop_serial_only:
  "send_at_loop d resp w = Some (resp', w') \<Longrightarrow> serial_only w w'"
proof (induction "length (rx w)" arbitrary: w resp rule: less_induct)
  case less
  show ?case
  proof (cases "now w < d")
    case False
    with less.prems have "w' = w"
      by (subst (asm) send_at_loop.simps) simp
    then show ?thesis by (simp add: serial_only_refl)
  next
    case True
    from send_at_loop_step [OF less.prems True]
    obtain bs w1 resp1
      where rd: "ser_read (if in_waiting w = 0 then 1 else in_waiting w) w = Some (bs, w1)"
        and rest: "w' = w1 \<or> send_at_loop d resp1 w1 = Some (resp', w')"
      by blast
    have one: "serial_only w w1" using rd by (rule serial_only_prims(1))
    have "length (rx w1) < length (rx w)"
      using rd by (rule ser_read_shrinks) (simp split: if_splits)
    with rest less.hyps have "serial_only w1 w'"
      by (auto simp: serial_only_refl)
    with one show ?thesis by (rule serial_only_trans)
  qed
qed

lemma send_at_serial_only:
  assumes "send_at cmd timeout w = Some (r, w')"
  shows "serial_only w w'"
proof -
  have a: "serial_only w (reset_input_buffer w)" by (rule serial_only_prims)
  show ?thesis
  proof (cases "encode (cmd @ [of_char CR])")
    case (Inl e)
    with assms a show ?thesis by (simp add: send_at_def)
  next
    case (Inr bs)
    let ?w2 = "ser_write bs (reset_input_buffer w)"
    have b: "serial_only w ?w2"
      using a serial_only_prims(2) by (rule serial_only_trans)
    from assms Inr obtain resp where "send_at_loop (now ?w2 + timeout) [] ?w2 = Some (resp, w')"
      by (auto simp: send_at_def Let_def split: option.splits)
    then have "serial_only ?w2 w'" by (rule send_at_loop_serial_only)
    with b show ?thesis by (rule serial_only_trans)
  qed
qed

lemma in_waiting_empty: "rx w = [] \<Longrightarrow> in_waiting w = 0"
  by (simp add: in_waiting_def)

lemma open_loop_silent:
  "rx w = [] \<Longrightarrow> \<exists>w'. open_loop d buf w = Some (False, w')"
proof (induction d buf w rule: open_loop.induct)
  case (1 d buf w)
  show ?case
  proof (cases "now w < d")
    case False
    then show ?thesis by (subst open_loop.simps) simp
  next
    case True
    have "rx (sleep 100 w) = []" using "1.prems" by (simp add: sleep_def)
    from "1.IH"(2) [OF True _ this] "1.prems" True show ?thesis
      by (subst open_loop.simps) (simp add: in_waiting_empty)
  qed
qed

lemma open_loop_burst:
  assumes "\<forall>p \<in> set (rx w). fst p = t" and "now w < d" and "t + 100 \<le> d \<or> t \<le> now w"
    and "scan_lines (show_int (sock_id w)) (splitlines buf) = None"
  shows "\<exists>w'. open_loop d buf w =
           Some (open_verdict (show_int (sock_id w))
                   (splitlines (buf @ decode_ignore (map snd (rx w)))), w')"
  using assms
proof (induction d buf w rule: open_loop.induct)
  case (1 d buf w)
  note burst = "1.prems"(1) and before = "1.prems"(2) and early = "1.prems"(3)
    and undecided = "1.prems"(4)
  show ?case
  proof (cases "in_waiting w = 0")
    case True
    show ?thesis
    proof (cases "rx w")
      case Nil
      from open_loop_silent [OF Nil, of d buf]
      obtain w' where run: "open_loop d buf w = Some (False, w')" by blast
      have "decode_ignore (map snd (rx w)) = []"
        using Nil by (simp add: decode_ignore_def)
      with scan_lines_verdict(2) [OF undecided] run show ?thesis by simp
    next
      case (Cons p ps)
      with True burst have late: "now w < t"
        by (auto simp: in_waiting_def arrived_def split: if_splits)
      with early have d: "t + 100 \<le> d" by simp
      have 1: "\<forall>p \<in> set (rx (sleep 100 w)). fst p = t" using burst by (simp add: sleep_def)
      have 2: "now (sleep 100 w) < d" using late d by (simp add: sleep_def)
      have 3: "t + 100 \<le> d \<or> t \<le> now (sleep 100 w)" using d by simp
      have 4: "scan_lines (show_int (sock_id (sleep 100 w))) (splitlines buf) = None"
        using undecided by (simp add: sleep_def)
      from "1.IH"(2) [OF before _ 1 2 3 4] True before show ?thesis
        by (subst open_loop.simps) (simp add: sleep_def)
    qed
  next
    case False
    then obtain p ps where rx: "rx w = p # ps" and "arrived (now w) p"
      by (cases "rx w") (auto simp: in_waiting_def split: if_splits)
    with burst have all: "\<forall>q \<in> set (rx w). arrived (now w) q"
      by (auto simp: arrived_def)
    then have tw: "takeWhile (arrived (now w)) (rx w) = rx w"
      and dw: "dropWhile (arrived (now w)) (rx w) = []"
      by simp_all
    let ?w1 = "w\<lparr>rx := []\<rparr>"
    let ?buf = "buf @ decode_ignore (map snd (rx w))"
    have rd: "ser_read (in_waiting w) w = Some (map snd (rx w), ?w1)"
      using ser_read_in_waiting [of w] by (simp add: tw dw)
    show ?thesis
    proof (cases "scan_lines (show_int (sock_id ?w1)) (splitlines ?buf)")
      case None
      from open_loop_silent [of "sleep 100 ?w1" d ?buf]
      obtain w' where "open_loop d ?buf (sleep 100 ?w1) = Some (False, w')"
        by (auto simp: sleep_def)
      with None scan_lines_verdict(2) [OF None] False before rd show ?thesis
        by (subst open_loop.simps) simp
    next
      case (Some b)
      with scan_lines_verdict(1) [OF Some] False before rd show ?thesis
        by (subst open_loop.simps) simp
    qed
  qed
qed

lemma open_run_connect:
  "open_tcp_direct_push (str_of ''1.2.3.4'') 80 (idle\<lparr>rx := at 5 ok_line @ at 900 connect_line\<rparr>)
     = Some (Inr True, idle\<lparr>now := 905, tx := qiopen_1234\<rparr>)"
  by code_simp

lemma open_run_ok_cmd:
  "send_at (qiopen_cmd (idle\<lparr>rx := at 5 ok_line @ at 900 qiopen_ok\<rparr>) (str_of ''1.2.3.4'') 80) 2000
       (idle\<lparr>rx := at 5 ok_line @ at 900 qiopen_ok\<rparr>)
     = Some (Inr (str_of ok_line), idle\<lparr>now := 5, rx := at 900 qiopen_ok, tx := qiopen_1234\<rparr>)"
  by code_simp

text \<open>
  C4, as the code has it. When the bytes that follow the command exchange arrive
  together, at least 100 ms before the 10 s deadline (or there are none), the open
  operation returns the verdict of the first deciding line among them: success when that
  line holds \<^verbatim>\<open>+QIOPEN: <id>,0\<close> or is \<^verbatim>\<open>CONNECT\<close>, failure when it holds \<^verbatim>\<open>+QIOPEN: <id>,\<close>
  with anything else, and failure when no line decides.
\<close>

theorem open_result_by_first_deciding_line:
  assumes "send_at (qiopen_cmd w host port) 2000 w = Some (Inr resp, w1)"
    and "\<forall>p \<in> set (rx w1). fst p = t"
    and "t + 100 \<le> now w1 + 10000"
  shows "\<exists>w2. open_tcp_direct_push host port w =
           Some (Inr (open_verdict (show_int (sock_id w))
                        (splitlines (decode_ignore (map snd (rx w1))))), w2)"
proof -
  have sid: "sock_id w1 = sock_id w"
    using send_at_serial_only [OF assms(1)] by (simp add: serial_only_def)
  have "scan_lines (show_int (sock_id w1)) (splitlines []) = None"
    by (simp add: splitlines_def)
  from open_loop_burst [OF assms(2) _ _ this, of "now w1 + 10000"] assms(3)
  obtain w2 where "open_loop (now w1 + 10000) [] w1 =
      Some (open_verdict (show_int (sock_id w1))
              (splitlines ([] @ decode_ignore (map snd (rx w1)))), w2)"
    by auto
  with assms(1) sid show ?thesis
    by (simp add: open_tcp_direct_push_def)
qed

theorem open_result_by_first_deciding_line_witness:
  "send_at (qiopen_cmd (idle\<lparr>rx := at 5 ok_line @ at 900 qiopen_ok\<rparr>) (str_of ''1.2.3.4'') 80) 2000
       (idle\<lparr>rx := at 5 ok_line @ at 900 qiopen_ok\<rparr>)
     = Some (Inr (str_of ok_line), idle\<lparr>now := 5, rx := at 900 qiopen_ok, tx := qiopen_1234\<rparr>)
   \<and> (\<exists>w2. open_tcp_direct_push (str_of ''1.2.3.4'') 80
              (idle\<lparr>rx := at 5 ok_line @ at 900 qiopen_ok\<rparr>) = Some (Inr True, w2))"
proof -
  let ?w1 = "idle\<lparr>now := 5, rx := at 900 qiopen_ok, tx := qiopen_1234\<rparr>"
  have burst: "\<forall>p \<in> set (rx ?w1). fst p = 900"
    by (simp add: at_def)
  have early: "900 + 100 \<le> now ?w1 + 10000"
    by simp
  have verdict: "open_verdict (show_int (sock_id (idle\<lparr>rx := at 5 ok_line @ at 900 qiopen_ok\<rparr>)))
                   (splitlines (decode_ignore (map snd (rx ?w1))))"
    by code_simp
  from open_result_by_first_deciding_line [OF open_run_ok_cmd burst early] verdict open_run_ok_cmd
  show ?thesis by simp
qed

text \<open>The modem answers the open command with OK and then \<^verbatim>\<open>CONNECT\<close>: the open operation
  returns success, and no \<^verbatim>\<open>+QIOPEN\<close> text was received at all.\<close>

theorem open_success_counterexample:
  "open_tcp_direct_push (str_of ''1.2.3.4'') 80 (idle\<lparr>rx := at 5 ok_line @ at 900 connect_line\<rparr>)
     = Some (Inr True, idle\<lparr>now := 905, tx := qiopen_1234\<rparr>)
   \<and> \<not> contains (str_of ''+QIOPEN'') (decode_ignore (ok_line @ connect_line))"
proof -
  have "\<not> contains (str_of ''+QIOPEN'') (decode_ignore (ok_line @ connect_line))"
    by code_simp
  with open_run_connect show ?thesis by simp
qed

subsection \<open>Modem to client: a receive notification\<close>













subsection \<open>The prompt of a chunked send\<close>

text \<open>
  C5. \<open>send_raw\<close> is to give up with a timeout error when the prompt has not come
  within \<open>PROMPT_TIMEOUT\<close>. With a modem that sends nothing after the command it never
  returns, and a prompt that comes after seven seconds is taken as if it were in time.
\<close>

theorem send_raw_prompt_deadline_runs:
  "send_raw ''hello'' idle = None
   \<and> send_raw ''hello'' (idle\<lparr>rx := at 7000 ''>'' @ at 7001 [CR, LF]\<rparr>)
       = Some (Inr (), idle\<lparr>now := 7001,
                         tx := ''AT+QISEND=0,5'' @ [CR] @ ''hello'' @ [CTRL_Z]\<rparr>)"
  by code_simp

subsection \<open>The SOCKS front end\<close>

lemma bind_io_SomeD:
  assumes "bind_io m f w = Some (r, w')"
  obtains (raised) e where "m w = Some (Inl e, w')" and "r = Inl e"
        | (returned) x w1 where "m w = Some (Inr x, w1)" and "f x w1 = Some (r, w')"
  using assms by (auto simp: bind_io_def split: option.splits sum.splits)

lemma reads_client_refl: "reads_client w w"
  by (simp add: reads_client_def)

lemma reads_client_trans: "reads_client w w1 \<Longrightarrow> reads_client w1 w2 \<Longrightarrow> reads_client w w2"
  by (simp add: reads_client_def)

lemma recv_io_reads: "recv_io n w = Some (r, w') \<Longrightarrow> reads_client w w'"
  by (auto simp: recv_io_def recv_def reads_client_def split: option.splits list.splits if_splits)

lemma pure_io_reads:
  "return_io x w = Some (r, w') \<Longrightarrow> reads_client w w'"
  "raise_io e w = Some (r, w') \<Longrightarrow> reads_client w w'"
  "unpack_BB b w = Some (r2, w') \<Longrightarrow> reads_client w w'"
  "unpack_BBBB b w = Some (r4, w') \<Longrightarrow> reads_client w w'"
  "unpack_H b w = Some (rh, w') \<Longrightarrow> reads_client w w'"
  "inet_ntoa b w = Some (ra, w') \<Longrightarrow> reads_client w w'"
  "first_byte b w = Some (rf, w') \<Longrightarrow> reads_client w w'"
  "decode_io b w = Some (rd, w') \<Longrightarrow> reads_client w w'"
  by (auto simp: return_io_def raise_io_def unpack_BB_def unpack_BBBB_def unpack_H_def
        inet_ntoa_def first_byte_def decode_io_def reads_client_def
        split: list.splits sum.splits)

lemma bind_io_reads:
  assumes "bind_io m f w = Some (r, w')"
    and "\<And>r1 w1. m w = Some (r1, w1) \<Longrightarrow> reads_client w w1"
    and "\<And>x w1 r2 w2. f x w1 = Some (r2, w2) \<Longrightarrow> reads_client w1 w2"
  shows "reads_client w w'"
  using assms(1)
proof (cases rule: bind_io_SomeD)
  case (raised e)
  then show ?thesis using assms(2) by blast
next
  case (returned x w1)
  then show ?thesis using assms(2,3) reads_client_trans by blast
qed

lemma request_port_reads: "request_port addr w = Some (r, w') \<Longrightarrow> reads_client w w'"
  unfolding request_port_def
  by (erule bind_io_reads, erule recv_io_reads, erule bind_io_reads, erule pure_io_reads,
      erule pure_io_reads)

lemma addr_ipv4_reads:
  "bind_io (recv_io 4) inet_ntoa w = Some (r, w') \<Longrightarrow> reads_client w w'"
  by (erule bind_io_reads, erule recv_io_reads, erule pure_io_reads)

lemma addr_domain_reads:
  "bind_io (recv_io 1) (\<lambda>b. bind_io (first_byte b) (\<lambda>alen. bind_io (recv_io alen) decode_io)) w
     = Some (r, w') \<Longrightarrow> reads_client w w'"
  by (erule bind_io_reads, erule recv_io_reads, erule bind_io_reads, erule pure_io_reads,
      erule bind_io_reads, erule recv_io_reads, erule pure_io_reads)

lemma connect_request_reads: "connect_request w = Some (r, w') \<Longrightarrow> reads_client w w'"
  unfolding connect_request_def
  apply (erule bind_io_reads, erule recv_io_reads)
  apply (erule bind_io_reads, erule pure_io_reads)
  apply (auto split: if_splits prod.splits
              elim!: bind_io_reads request_port_reads addr_ipv4_reads addr_domain_reads
              intro: recv_io_reads pure_io_reads)
  done

lemma socks_handshake_cout:
  assumes "socks_handshake w = Some (Inr u, w0)"
  shows "cout w0 = cout w @ [CHR 0x05, CHR 0x00] \<and> tx w0 = tx w"
  using assms unfolding socks_handshake_def
  by (auto elim!: bind_io_SomeD dest!: recv_io_reads pure_io_reads(3)
           simp: reads_client_def sendall_io_def sendall_def split: prod.splits)


lemma open_loop_serial_only:
  "open_loop d buf w = Some (b, w') \<Longrightarrow> serial_only w w'"
proof (induction d buf w rule: open_loop.induct)
  case (1 d buf w)
  show ?case
  proof (cases "now w < d")
    case False
    with "1.prems" have "w' = w" by (subst (asm) open_loop.simps) simp
    then show ?thesis by (simp add: serial_only_refl)
  next
    case True
    show ?thesis
    proof (cases "in_waiting w = 0")
      case True
      with \<open>now w < d\<close> "1.prems" have "open_loop d buf (sleep 100 w) = Some (b, w')"
        by (subst (asm) open_loop.simps) simp
      from "1.IH"(2) [OF \<open>now w < d\<close> _ this] True have "serial_only (sleep 100 w) w'" by simp
      with serial_only_prims(4) show ?thesis by (rule serial_only_trans)
    next
      case False
      let ?bs = "map snd (takeWhile (arrived (now w)) (rx w))"
      let ?w1 = "w\<lparr>rx := dropWhile (arrived (now w)) (rx w)\<rparr>"
      let ?buf = "buf @ decode_ignore ?bs"
      have one: "serial_only w ?w1" by (simp add: serial_only_def)
      show ?thesis
      proof (cases "scan_lines (show_int (sock_id ?w1)) (splitlines ?buf)")
        case (Some v)
        with False \<open>now w < d\<close> "1.prems" have "w' = ?w1"
          by (subst (asm) open_loop.simps) (simp add: ser_read_in_waiting)
        with one show ?thesis by simp
      next
        case None
        with False \<open>now w < d\<close> "1.prems"
        have run: "open_loop d ?buf (sleep 100 ?w1) = Some (b, w')"
          by (subst (asm) open_loop.simps) (simp add: ser_read_in_waiting)
        from "1.IH"(1) [OF \<open>now w < d\<close> _ ser_read_in_waiting refl None run] False
        have "serial_only (sleep 100 ?w1) w'" by simp
        with serial_only_prims(4) have "serial_only ?w1 w'" by (rule serial_only_trans)
        with one show ?thesis by (rule serial_only_trans)
      qed
    qed
  qed
qed

lemma open_tcp_serial_only:
  assumes "open_tcp_direct_push host port w = Some (r, w')"
  shows "serial_only w w'"
proof (cases "send_at (qiopen_cmd w host port) 2000 w")
  case None
  with assms show ?thesis by (simp add: open_tcp_direct_push_def)
next
  case (Some p)
  obtain r1 w1 where p: "p = (r1, w1)" by (cases p)
  from Some p have one: "serial_only w w1" by (auto dest: send_at_serial_only)
  show ?thesis
  proof (cases r1)
    case (Inl e)
    with assms Some p one show ?thesis by (simp add: open_tcp_direct_push_def)
  next
    case (Inr resp)
    with assms Some p obtain b where "open_loop (now w1 + 10000) [] w1 = Some (b, w')"
      by (auto simp: open_tcp_direct_push_def split: option.splits)
    then have "serial_only w1 w'" by (rule open_loop_serial_only)
    with one show ?thesis by (rule serial_only_trans)
  qed
qed

lemma replicate_6: "replicate 6 x = [x, x, x, x, x, x]"
  by (simp add: numeral_eq_Suc)

lemma handshake_run:
  "socks_handshake (idle\<lparr>cin := [(0, greeting), (1, req)]\<rparr>)
     = Some (Inr (), idle\<lparr>cin := [(1, req)], cout := [CHR 0x05, CHR 0x00]\<rparr>)"
  by (simp add: socks_handshake_def bind_io_def recv_io_def recv_def unpack_BB_def
        return_io_def sendall_io_def sendall_def idle_def greeting_def)

lemma handle_client_bind_run:
  "handle_client (idle\<lparr>cin := [(0, greeting), (1, bind_ipv4)]\<rparr>)
     = Some (Inr (), idle\<lparr>now := 1, cin := [(1, drop 4 bind_ipv4)],
                       cout := [CHR 0x05, CHR 0x00], cclosed := True\<rparr>)"
  by code_simp

lemma handle_client_ipv6_run:
  "handle_client (idle\<lparr>cin := [(0, greeting), (1, connect_ipv6)]\<rparr>)
     = Some (Inr (), idle\<lparr>now := 1, cin := [(1, drop 4 connect_ipv6)],
                       cout := [CHR 0x05, CHR 0x00], cclosed := True\<rparr>)"
  by code_simp

text \<open>
  C7, as the code has it. A request whose command code is not CONNECT, or whose address
  type is neither IPv4 nor domain name, gets no reply: once its four header bytes are
  read the handler returns and the connection is closed. The client has then been sent
  the method reply \<^verbatim>\<open>05 00\<close> and nothing else, and nothing was written to the modem.
\<close>

theorem unsupported_request_dropped:
  assumes hs: "socks_handshake w = Some (Inr (), w0)"
    and hdr: "recv 4 w0 = Some ([v, c, r, a], w1)"
    and bad: "of_char c \<noteq> (1::nat) \<or> (of_char a \<noteq> (1::nat) \<and> of_char a \<noteq> (3::nat))"
  shows "handle_client w = Some (Inr (), w1\<lparr>cclosed := True\<rparr>)
         \<and> cout w1 = cout w @ [CHR 0x05, CHR 0x00] \<and> tx w1 = tx w"
proof -
  have req: "connect_request w0 = Some (Inr None, w1)"
    using hdr bad
    by (auto simp: connect_request_def bind_io_def recv_io_def unpack_BBBB_def return_io_def)
  then have "reads_client w0 w1" by (rule connect_request_reads)
  with socks_handshake_cout [OF hs]
  have "cout w1 = cout w @ [CHR 0x05, CHR 0x00]" and "tx w1 = tx w"
    by (simp_all add: reads_client_def)
  moreover have "handle_client w = Some (Inr (), w1\<lparr>cclosed := True\<rparr>)"
    using hs req
    by (simp add: handle_client_def handle_client_body_def bind_io_def return_io_def)
  ultimately show ?thesis by simp
qed

theorem unsupported_request_dropped_witness:
  "handle_client (idle\<lparr>cin := [(0, greeting), (1, bind_ipv4)]\<rparr>)
     = Some (Inr (), idle\<lparr>now := 1, cin := [(1, drop 4 bind_ipv4)],
                       cout := [CHR 0x05, CHR 0x00], cclosed := True\<rparr>)
   \<and> handle_client (idle\<lparr>cin := [(0, greeting), (1, connect_ipv6)]\<rparr>)
     = Some (Inr (), idle\<lparr>now := 1, cin := [(1, drop 4 connect_ipv6)],
                       cout := [CHR 0x05, CHR 0x00], cclosed := True\<rparr>)"
proof -
  let ?w0 = "\<lambda>req. idle\<lparr>cin := [(1, req)], cout := [CHR 0x05, CHR 0x00]\<rparr>"
  let ?w1 = "\<lambda>req. idle\<lparr>now := 1, cin := [(1, drop 4 req)], cout := [CHR 0x05, CHR 0x00]\<rparr>"
  have hdr_bind:
    "recv 4 (?w0 bind_ipv4) = Some ([CHR 0x05, CHR 0x02, CHR 0x00, CHR 0x01], ?w1 bind_ipv4)"
    by (simp add: recv_def idle_def bind_ipv4_def)
  have bad_bind: "of_char (CHR 0x02) \<noteq> (1::nat)
      \<or> (of_char (CHR 0x01) \<noteq> (1::nat) \<and> of_char (CHR 0x01) \<noteq> (3::nat))"
    by simp
  have hdr_ipv6:
    "recv 4 (?w0 connect_ipv6) = Some ([CHR 0x05, CHR 0x01, CHR 0x00, CHR 0x04], ?w1 connect_ipv6)"
    by (simp add: recv_def idle_def connect_ipv6_def)
  have bad_ipv6: "of_char (CHR 0x01) \<noteq> (1::nat)
      \<or> (of_char (CHR 0x04) \<noteq> (1::nat) \<and> of_char (CHR 0x04) \<noteq> (3::nat))"
    by simp
  from unsupported_request_dropped [OF handshake_run hdr_bind bad_bind]
    unsupported_request_dropped [OF handshake_run hdr_ipv6 bad_ipv6]
  show ?thesis by simp
qed

text \<open>A BIND request and a CONNECT request with an IPv6 address: the handler returns
  with the connection closed, and the client was sent \<^verbatim>\<open>05 00\<close> only, no failure reply.\<close>

theorem unsupported_request_counterexample:
  "handle_client (idle\<lparr>cin := [(0, greeting), (1, bind_ipv4)]\<rparr>)
     = Some (Inr (), idle\<lparr>now := 1, cin := [(1, drop 4 bind_ipv4)],
                       cout := [CHR 0x05, CHR 0x00], cclosed := True\<rparr>)
   \<and> handle_client (idle\<lparr>cin := [(0, greeting), (1, connect_ipv6)]\<rparr>)
     = Some (Inr (), idle\<lparr>now := 1, cin := [(1, drop 4 connect_ipv6)],
                       cout := [CHR 0x05, CHR 0x00], cclosed := True\<rparr>)"
  using handle_client_bind_run handle_client_ipv6_run by simp

lemma connect_request_run:
  "connect_request (idle\<lparr>cin := [(1, connect_ipv4)], cout := [CHR 0x05, CHR 0x00], rx := modem\<rparr>)
     = Some (Inr (Some (str_of ''1.2.3.4'', 80)),
             idle\<lparr>now := 1, cout := [CHR 0x05, CHR 0x00], rx := modem\<rparr>)"
  by (simp add: connect_request_def request_port_def bind_io_def recv_io_def recv_def
        unpack_BBBB_def unpack_H_def inet_ntoa_def return_io_def idle_def connect_ipv4_def
        str_of_def show_nat.simps)

lemma handshake_run_modem:
  "socks_handshake (idle\<lparr>cin := [(0, greeting), (1, req)], rx := modem\<rparr>)
     = Some (Inr (), idle\<lparr>cin := [(1, req)], cout := [CHR 0x05, CHR 0x00], rx := modem\<rparr>)"
  by (simp add: socks_handshake_def bind_io_def recv_io_def recv_def unpack_BB_def
        return_io_def sendall_io_def sendall_def idle_def greeting_def)

lemma open_refused_run:
  "open_tcp_direct_push (str_of ''1.2.3.4'') 80
     (idle\<lparr>now := 1, cout := [CHR 0x05, CHR 0x00], rx := at 5 ok_line @ at 900 qiopen_566\<rparr>)
     = Some (Inr False, idle\<lparr>now := 905, cout := [CHR 0x05, CHR 0x00], tx := qiopen_1234\<rparr>)"
  by code_simp

lemma open_accepted_run:
  "open_tcp_direct_push (str_of ''1.2.3.4'') 80
     (idle\<lparr>now := 1, cout := [CHR 0x05, CHR 0x00], rx := at 5 ok_line @ at 900 qiopen_ok\<rparr>)
     = Some (Inr True, idle\<lparr>now := 905, cout := [CHR 0x05, CHR 0x00], tx := qiopen_1234\<rparr>)"
  by code_simp

text \<open>
  C8. Once the request is read and the open operation has returned: if it returned
  failure, the handler sends \<^verbatim>\<open>05 01 00 01\<close> and six zero bytes, returns and closes the
  connection, the client having been sent the method reply and this reply only; if it
  returned success, the handler sends \<^verbatim>\<open>05 00 00 01\<close> and six zero bytes and goes on
  with the relay loop (and, after it, the close command).
\<close>

theorem connect_reply:
  assumes hs: "socks_handshake w = Some (Inr (), w0)"
    and req: "connect_request w0 = Some (Inr (Some (addr, port)), w1)"
    and op: "open_tcp_direct_push addr port w1 = Some (Inr opened, w2)"
  shows "(\<not> opened \<longrightarrow>
            handle_client w =
              Some (Inr (), w2\<lparr>cout := cout w @ [CHR 0x05, CHR 0x00]
                                    @ [CHR 0x05, CHR 0x01, CHR 0x00, CHR 0x01, CHR 0x00, CHR 0x00,
                                       CHR 0x00, CHR 0x00, CHR 0x00, CHR 0x00],
                                cclosed := True\<rparr>))
         \<and> (opened \<longrightarrow>
            handle_client w =
              (case bind_io relay_loop (\<lambda>u. close_tcp)
                      (w2\<lparr>cout := cout w @ [CHR 0x05, CHR 0x00]
                                    @ [CHR 0x05, CHR 0x00, CHR 0x00, CHR 0x01, CHR 0x00, CHR 0x00,
                                       CHR 0x00, CHR 0x00, CHR 0x00, CHR 0x00]\<rparr>) of
                 None \<Rightarrow> None
               | Some (r, w') \<Rightarrow> Some (r, w'\<lparr>cclosed := True\<rparr>)))"
proof -
  have "reads_client w0 w1" using req by (rule connect_request_reads)
  moreover have "serial_only w1 w2" using op by (rule open_tcp_serial_only)
  ultimately have c: "cout w2 = cout w @ [CHR 0x05, CHR 0x00]"
    using socks_handshake_cout [OF hs] by (simp add: reads_client_def serial_only_def)
  have body: "handle_client_body w =
      (if \<not> opened then sendall_io reply_failed w2
       else bind_io (sendall_io reply_succeeded) (\<lambda>u. bind_io relay_loop (\<lambda>u. close_tcp)) w2)"
    using hs req op by (simp add: handle_client_body_def bind_io_def)
  show ?thesis
    using c by (simp add: handle_client_def body sendall_io_def sendall_def bind_io_def
                  reply_failed_def reply_succeeded_def replicate_6)
qed




theorem connect_reply_witness:
  "handle_client (idle\<lparr>cin := [(0, greeting), (1, connect_ipv4)],
                       rx := at 5 ok_line @ at 900 qiopen_566\<rparr>)
     = Some (Inr (), idle\<lparr>now := 905, tx := qiopen_1234,
                       cout := [CHR 0x05, CHR 0x00, CHR 0x05, CHR 0x01, CHR 0x00, CHR 0x01,
                                CHR 0x00, CHR 0x00, CHR 0x00, CHR 0x00, CHR 0x00, CHR 0x00],
                       cclosed := True\<rparr>)
   \<and> handle_client (idle\<lparr>cin := [(0, greeting), (1, connect_ipv4)],
                         rx := at 5 ok_line @ at 900 qiopen_ok\<rparr>)
     = (case bind_io relay_loop (\<lambda>u. close_tcp)
              (idle\<lparr>now := 905, tx := qiopen_1234,
                    cout := [CHR 0x05, CHR 0x00, CHR 0x05, CHR 0x00, CHR 0x00, CHR 0x01,
                             CHR 0x00, CHR 0x00, CHR 0x00, CHR 0x00, CHR 0x00, CHR 0x00]\<rparr>) of
         None \<Rightarrow> None
       | Some (r, w') \<Rightarrow> Some (r, w'\<lparr>cclosed := True\<rparr>))"
proof -
  have no: "\<not> False" and yes: "True" by simp_all
  from connect_reply [OF handshake_run_modem connect_request_run open_refused_run] no
    connect_reply [OF handshake_run_modem connect_request_run open_accepted_run] yes
  show ?thesis by (simp add: idle_def)
qed

end
